theory Spec2Isabelle
  imports Main "HOL-Library.Word" "HOL-Library.AList"
begin

section \<open>Platform library: characters, strings and integer parsing\<close>

text \<open>
  The firmware is written against the Arduino core for the ESP32. A \<^verbatim>\<open>String\<close> is a
  sequence of bytes, modelled as \<^typ>\<open>string\<close>; \<^verbatim>\<open>int\<close> and \<^verbatim>\<open>long\<close> are 32 bits wide,
  \<^verbatim>\<open>unsigned long\<close> is a \<^typ>\<open>32 word\<close> and \<^verbatim>\<open>byte\<close> is an \<^typ>\<open>8 word\<close>.
\<close>

type_synonym byte = "8 word"
type_synonym ulong = "32 word"

definition LONG_MAX :: int where
  "LONG_MAX = 2147483647"

definition LONG_MIN :: int where
  "LONG_MIN = - 2147483648"

definition isspace :: "char \<Rightarrow> bool" where
  "isspace c = (of_char c = (32::nat) \<or> ((9::nat) \<le> of_char c \<and> of_char c \<le> (13::nat)))"

definition isdigit :: "char \<Rightarrow> bool" where
  "isdigit c = ((48::nat) \<le> of_char c \<and> of_char c \<le> (57::nat))"

definition digit_value :: "char \<Rightarrow> int" where
  "digit_value c = int (of_char c) - 48"

text \<open>\<^verbatim>\<open>String::startsWith(prefix)\<close>: false when the string is shorter than the prefix,
  otherwise a comparison of the first \<open>length prefix\<close> bytes.\<close>

definition startsWith :: "string \<Rightarrow> string \<Rightarrow> bool" where
  "startsWith data p = (if length data < length p then False else take (length p) data = p)"

text \<open>\<^verbatim>\<open>String::substring(left)\<close>: the bytes from index \<open>left\<close> to the end; empty when
  \<open>left\<close> is not below the length.\<close>

definition substring :: "string \<Rightarrow> nat \<Rightarrow> string" where
  "substring data left = (if left \<ge> length data then [] else drop left data)"

text \<open>
  \<^verbatim>\<open>String::toInt()\<close> is the C library's \<^verbatim>\<open>atol\<close>, that is \<^verbatim>\<open>strtol(s, NULL, 10)\<close>: leading
  white space is skipped, one optional sign is read, then the longest run of decimal digits;
  anything after it is ignored, and no digits at all give 0. A value that does not fit a
  32-bit \<^verbatim>\<open>long\<close> is clamped to \<open>LONG_MAX\<close> or \<open>LONG_MIN\<close>. The function belongs to the
  platform, not to the repository.
\<close>

definition digits_value :: "string \<Rightarrow> int" where
  "digits_value ds = foldl (\<lambda>acc c. 10 * acc + digit_value c) 0 ds"

definition toInt :: "string \<Rightarrow> int" where
  "toInt s =
     (let s1 = dropWhile isspace s;
          neg = (s1 \<noteq> [] \<and> hd s1 = CHR ''-'');
          s2 = (if s1 \<noteq> [] \<and> (hd s1 = CHR ''-'' \<or> hd s1 = CHR ''+'') then tl s1 else s1);
          acc = digits_value (takeWhile isdigit s2)
      in if neg then max LONG_MIN (- acc) else min LONG_MAX acc)"

text \<open>Decimal rendering of an integer, as \<^verbatim>\<open>String(int)\<close> and the JSON serializer write it:
  a minus sign for a negative number, then the digits without leading zeros.\<close>

definition digit_char :: "nat \<Rightarrow> char" where
  "digit_char d = char_of (48 + d)"

fun show_nat :: "nat \<Rightarrow> string" where
  "show_nat n = (if n < 10 then [digit_char n] else show_nat (n div 10) @ [digit_char (n mod 10)])"

declare show_nat.simps [simp del]

definition show_int :: "int \<Rightarrow> string" where
  "show_int i = (if i < 0 then CHR ''-'' # show_nat (nat (- i)) else show_nat (nat i))"

section \<open>The sensor data store\<close>

record SensorData =
  co2 :: int
  pm25 :: int
  o3 :: int
  temp :: int
  hum :: int
  tvoc :: int
  lastUpdate :: ulong

definition sensorData_init :: SensorData where
  "sensorData_init =
     \<lparr>co2 = 0, pm25 = 0, o3 = 0, temp = 0, hum = 0, tvoc = 0, lastUpdate = 0\<rparr>"

section \<open>The command parser\<close>

text \<open>\<^verbatim>\<open>parseArduinoData(String data)\<close>. The global \<^verbatim>\<open>sensorData\<close> is passed in and returned;
  \<open>now\<close> is what \<^verbatim>\<open>millis()\<close> returns during the call. The function returns nothing and
  raises nothing; its lines on the debug console are not part of the state.\<close>

definition parseArduinoData :: "string \<Rightarrow> ulong \<Rightarrow> SensorData \<Rightarrow> SensorData" where
  "parseArduinoData data now sd =
     (if startsWith data ''co2V.val='' then
        (let v = toInt (substring data 9) in
         if v > 0 \<and> v < 10000 then sd\<lparr>co2 := v, lastUpdate := now\<rparr> else sd)
      else if startsWith data ''pm25V.val='' then
        (let v = toInt (substring data 10) in
         if v \<ge> 0 \<and> v < 2000 then sd\<lparr>pm25 := v, lastUpdate := now\<rparr> else sd)
      else if startsWith data ''o3V.val='' then
        (let v = toInt (substring data 8) in
         if v \<ge> 0 \<and> v < 2000 then sd\<lparr>o3 := v, lastUpdate := now\<rparr> else sd)
      else if startsWith data ''tempV.val='' then
        (let v = toInt (substring data 10) in
         if v \<ge> - 50 \<and> v < 100 then sd\<lparr>temp := v, lastUpdate := now\<rparr> else sd)
      else if startsWith data ''humV.val='' then
        (let v = toInt (substring data 9) in
         if v \<ge> 0 \<and> v \<le> 100 then sd\<lparr>hum := v, lastUpdate := now\<rparr> else sd)
      else if startsWith data ''tvocV.val='' then
        (let v = toInt (substring data 10) in
         if v \<ge> 0 \<and> v < 2000 then sd\<lparr>tvoc := v, lastUpdate := now\<rparr> else sd)
      else sd)"

section \<open>The frame reader\<close>

text \<open>
  The globals the reader works on: the store, the accumulation buffer and the static
  counter of consecutive delimiter bytes. \<open>received\<close> records, in order, every buffer
  content handed to \<open>parseArduinoData\<close> (the \<^verbatim>\<open>Complete message received\<close> lines of the
  debug console); the code never reads it.
\<close>

record Globals =
  sensorData :: SensorData
  serialBuffer :: string
  ffCount :: int
  received :: "string list"

definition globals_init :: Globals where
  "globals_init =
     \<lparr>sensorData = sensorData_init, serialBuffer = [], ffCount = 0, received = []\<rparr>"

text \<open>One pass of the body of the \<^verbatim>\<open>while (ArduinoSerial.available())\<close> loop: \<open>inByte\<close> is
  the byte read and \<open>now\<close> the reading of \<^verbatim>\<open>millis()\<close> at that moment.\<close>

definition readByte :: "byte \<times> ulong \<Rightarrow> Globals \<Rightarrow> Globals" where
  "readByte inp g =
     (let inByte = fst inp; now = snd inp;
          g1 =
            (if inByte = 0xFF then
               (let g' = g\<lparr>ffCount := ffCount g + 1\<rparr> in
                if ffCount g' \<ge> 3 then
                  (let g'' =
                     (if length (serialBuffer g') > 0 then
                        g'\<lparr>sensorData := parseArduinoData (serialBuffer g') now (sensorData g'),
                           received := received g' @ [serialBuffer g'],
                           serialBuffer := []\<rparr>
                      else g')
                   in g''\<lparr>ffCount := 0\<rparr>)
                else g')
             else
               (let g' = g\<lparr>ffCount := 0\<rparr> in
                if inByte \<ge> 32 \<and> inByte \<le> 126 then
                  g'\<lparr>serialBuffer := serialBuffer g' @ [char_of (unat inByte)]\<rparr>
                else g'))
      in if length (serialBuffer g1) > 100 then g1\<lparr>serialBuffer := [], ffCount := 0\<rparr> else g1)"

text \<open>\<^verbatim>\<open>readArduinoData()\<close>: the loop runs once for every byte that is available.\<close>

definition readArduinoData :: "(byte \<times> ulong) list \<Rightarrow> Globals \<Rightarrow> Globals" where
  "readArduinoData input g = fold readByte input g"

section \<open>The snapshot exporter\<close>

text \<open>A \<^verbatim>\<open>JsonDocument\<close> holding an object of integers: the members in insertion order.
  \<open>doc[key] = value\<close> replaces the member when the key is present and appends it otherwise.\<close>

type_synonym JsonDocument = "(string \<times> int) list"

definition doc_assign :: "string \<Rightarrow> int \<Rightarrow> JsonDocument \<Rightarrow> JsonDocument" where
  "doc_assign k v doc = AList.update k v doc"

definition json_member :: "string \<times> int \<Rightarrow> string" where
  "json_member kv = [CHR 0x22] @ fst kv @ [CHR 0x22] @ '':'' @ show_int (snd kv)"

fun json_members :: "JsonDocument \<Rightarrow> string" where
  "json_members [] = []"
| "json_members [kv] = json_member kv"
| "json_members (kv # rest) = json_member kv @ '','' @ json_members rest"

definition serializeJson :: "JsonDocument \<Rightarrow> string" where
  "serializeJson doc = ''{'' @ json_members doc @ ''}''"

record Response =
  code :: int
  contentType :: string
  content :: string

text \<open>\<^verbatim>\<open>handleData()\<close>: \<open>now\<close> is the reading of \<^verbatim>\<open>millis()\<close> during the call. The result is
  what \<^verbatim>\<open>server.send\<close> is given, with the globals as the call leaves them.\<close>

definition handleData_doc :: "ulong \<Rightarrow> SensorData \<Rightarrow> JsonDocument" where
  "handleData_doc now sd =
     (let doc = [];
          doc = doc_assign ''co2'' (co2 sd) doc;
          doc = doc_assign ''pm25'' (pm25 sd) doc;
          doc = doc_assign ''o3'' (o3 sd) doc;
          doc = doc_assign ''temp'' (temp sd) doc;
          doc = doc_assign ''hum'' (hum sd) doc;
          doc = doc_assign ''tvoc'' (tvoc sd) doc;
          doc = doc_assign ''lastUpdate'' (uint now) doc
      in doc)"

definition handleData :: "ulong \<Rightarrow> Globals \<Rightarrow> Response \<times> Globals" where
  "handleData now g =
     (let doc = handleData_doc now (sensorData g);
          jsonString = serializeJson doc;
          httpResponseCode = 200
      in (\<lparr>code = httpResponseCode, contentType = ''application/json'', content = jsonString\<rparr>, g))"

section \<open>Vocabulary of the specification\<close>

text \<open>
  The field table of the specification: the six measurement fields, the prefix that names
  each on the wire, its plausible range with both bounds inclusive, its place in the store,
  and what accepting a value for it means (the value is written to the field and
  \<open>lastUpdate\<close> is set to the clock reading). These definitions state the claims; the
  program above does not use them.
\<close>

datatype field = CO2 | PM25 | O3 | TEMP | HUM | TVOC

fun prefix_of :: "field \<Rightarrow> string" where
  "prefix_of CO2 = ''co2V.val=''"
| "prefix_of PM25 = ''pm25V.val=''"
| "prefix_of O3 = ''o3V.val=''"
| "prefix_of TEMP = ''tempV.val=''"
| "prefix_of HUM = ''humV.val=''"
| "prefix_of TVOC = ''tvocV.val=''"

fun in_range :: "field \<Rightarrow> int \<Rightarrow> bool" where
  "in_range CO2 n = (1 \<le> n \<and> n \<le> 9999)"
| "in_range PM25 n = (0 \<le> n \<and> n \<le> 1999)"
| "in_range O3 n = (0 \<le> n \<and> n \<le> 1999)"
| "in_range TEMP n = (- 50 \<le> n \<and> n \<le> 99)"
| "in_range HUM n = (0 \<le> n \<and> n \<le> 100)"
| "in_range TVOC n = (0 \<le> n \<and> n \<le> 1999)"

fun field_value :: "field \<Rightarrow> SensorData \<Rightarrow> int" where
  "field_value CO2 sd = co2 sd"
| "field_value PM25 sd = pm25 sd"
| "field_value O3 sd = o3 sd"
| "field_value TEMP sd = temp sd"
| "field_value HUM sd = hum sd"
| "field_value TVOC sd = tvoc sd"

fun accept :: "field \<Rightarrow> int \<Rightarrow> ulong \<Rightarrow> SensorData \<Rightarrow> SensorData" where
  "accept CO2 n now sd = sd\<lparr>co2 := n, lastUpdate := now\<rparr>"
| "accept PM25 n now sd = sd\<lparr>pm25 := n, lastUpdate := now\<rparr>"
| "accept O3 n now sd = sd\<lparr>o3 := n, lastUpdate := now\<rparr>"
| "accept TEMP n now sd = sd\<lparr>temp := n, lastUpdate := now\<rparr>"
| "accept HUM n now sd = sd\<lparr>hum := n, lastUpdate := now\<rparr>"
| "accept TVOC n now sd = sd\<lparr>tvoc := n, lastUpdate := now\<rparr>"

text \<open>
  The wire grammar's integer: an optionally signed base-10 literal, that is one optional
  \<open>+\<close> or \<open>-\<close> followed by at least one decimal digit, and the number it denotes.
\<close>

definition literal_digits :: "string \<Rightarrow> string" where
  "literal_digits s = (if s \<noteq> [] \<and> (hd s = CHR ''-'' \<or> hd s = CHR ''+'') then tl s else s)"

definition is_int_literal :: "string \<Rightarrow> bool" where
  "is_int_literal s = (literal_digits s \<noteq> [] \<and> list_all isdigit (literal_digits s))"

definition literal_value :: "string \<Rightarrow> int" where
  "literal_value s =
     (if s \<noteq> [] \<and> hd s = CHR ''-'' then - digits_value (literal_digits s)
      else digits_value (literal_digits s))"

definition clamp_long :: "int \<Rightarrow> int" where
  "clamp_long n = max LONG_MIN (min LONG_MAX n)"


text \<open>The number a message carries for field \<open>f\<close> (what the parser reads after the
  prefix), a valid message for \<open>f\<close> (recognized prefix, value in range), and whether some
  message of a sequence was a valid message for \<open>f\<close> carrying \<open>v\<close>.\<close>

definition payload :: "field \<Rightarrow> string \<Rightarrow> int" where
  "payload f m = toInt (substring m (length (prefix_of f)))"

definition valid_message :: "field \<Rightarrow> string \<Rightarrow> bool" where
  "valid_message f m = (startsWith m (prefix_of f) \<and> in_range f (payload f m))"

definition accepted_in :: "field \<Rightarrow> int \<Rightarrow> (string \<times> ulong) list \<Rightarrow> bool" where
  "accepted_in f v msgs = list_ex (\<lambda>m. valid_message f (fst m) \<and> payload f (fst m) = v) msgs"

text \<open>The command parser run over a sequence of complete messages, each with the clock
  reading at the time it is processed.\<close>

definition process_messages :: "(string \<times> ulong) list \<Rightarrow> SensorData \<Rightarrow> SensorData" where
  "process_messages msgs sd = fold (\<lambda>m. parseArduinoData (fst m) (snd m)) msgs sd"

text \<open>Bytes on the wire: the printable range the reader keeps, the bytes of an ASCII text,
  and a byte sequence paired with the clock readings \<open>clk 0\<close>, \<open>clk 1\<close>, ... at which its
  bytes are read.\<close>

definition printable :: "byte \<Rightarrow> bool" where
  "printable b = (32 \<le> b \<and> b \<le> 126)"

definition bytes_of :: "string \<Rightarrow> byte list" where
  "bytes_of s = map (\<lambda>c. of_nat (of_char c)) s"

definition at_times :: "(nat \<Rightarrow> ulong) \<Rightarrow> byte list \<Rightarrow> (byte \<times> ulong) list" where
  "at_times clk bs = map (\<lambda>ib. (snd ib, clk (fst ib))) (enumerate 0 bs)"

section \<open>Auxiliary facts\<close>

lemma startsWith_append: "startsWith (p @ s) p"
  by (simp add: startsWith_def)

lemma substring_append: "substring (p @ s) (length p) = s"
  by (simp add: substring_def)

lemma of_char_digit_char: "d < 10 \<Longrightarrow> of_char (digit_char d) = 48 + d"
  by (simp add: digit_char_def)

lemma isdigit_digit_char: "d < 10 \<Longrightarrow> isdigit (digit_char d)"
  by (simp add: isdigit_def of_char_digit_char)

lemma digit_value_digit_char: "d < 10 \<Longrightarrow> digit_value (digit_char d) = int d"
  by (simp add: digit_value_def of_char_digit_char)

lemma digits_value_snoc: "digits_value (ds @ [c]) = 10 * digits_value ds + digit_value c"
  by (simp add: digits_value_def)

lemma show_nat_digits: "list_all isdigit (show_nat n)"
  by (induction n rule: show_nat.induct) (subst show_nat.simps, simp add: isdigit_digit_char)

lemma show_nat_nonempty: "show_nat n \<noteq> []"
  by (subst show_nat.simps) simp

lemma digits_value_show_nat: "digits_value (show_nat n) = int n"
proof (induction n rule: show_nat.induct)
  case (1 n)
  show ?case
  proof (cases "n < 10")
    case True
    then show ?thesis
      by (subst show_nat.simps) (simp add: digits_value_def digit_value_digit_char)
  next
    case False
    with 1 have "digits_value (show_nat (n div 10)) = int (n div 10)" by simp
    with False show ?thesis
      by (subst show_nat.simps) (simp add: digits_value_snoc digit_value_digit_char zdiv_int zmod_int)
  qed
qed

lemma isdigit_not_space: "isdigit c \<Longrightarrow> \<not> isspace c"
  by (auto simp: isdigit_def isspace_def)

lemma isdigit_not_sign: "isdigit c \<Longrightarrow> c \<noteq> CHR ''-'' \<and> c \<noteq> CHR ''+''"
  by (auto simp: isdigit_def)

lemma takeWhile_all: "list_all P xs \<Longrightarrow> takeWhile P xs = xs"
  by (induction xs) auto

lemma toInt_digits:
  assumes "ds \<noteq> []" "list_all isdigit ds"
  shows "toInt ds = min LONG_MAX (digits_value ds)"
    and "toInt (CHR ''+'' # ds) = min LONG_MAX (digits_value ds)"
    and "toInt (CHR ''-'' # ds) = max LONG_MIN (- digits_value ds)"
proof -
  from assms obtain d ds' where ds: "ds = d # ds'" and d: "isdigit d"
    by (cases ds) auto
  from d have ns: "\<not> isspace d" "d \<noteq> CHR ''-''" "d \<noteq> CHR ''+''"
    using isdigit_not_space isdigit_not_sign by auto
  have tw: "takeWhile isdigit ds = ds" using assms(2) by (rule takeWhile_all)
  have dw: "dropWhile isspace ds = ds" using ns(1) by (simp add: ds)
  have hd: "hd ds = d" "ds \<noteq> []" by (simp_all add: ds)
  show "toInt ds = min LONG_MAX (digits_value ds)"
    using ns by (simp add: toInt_def Let_def dw tw hd)
  show "toInt (CHR ''+'' # ds) = min LONG_MAX (digits_value ds)"
    by (simp add: toInt_def Let_def isspace_def tw)
  show "toInt (CHR ''-'' # ds) = max LONG_MIN (- digits_value ds)"
    by (simp add: toInt_def Let_def isspace_def tw)
qed


lemma parse_prefixed:
  "parseArduinoData (prefix_of f @ s) now sd =
     (if in_range f (toInt s) then accept f (toInt s) now sd else sd)"
  by (cases f) (auto simp: parseArduinoData_def startsWith_def substring_def Let_def)

lemma digits_value_nonneg_aux:
  "list_all isdigit ds \<Longrightarrow> 0 \<le> a \<Longrightarrow> 0 \<le> foldl (\<lambda>acc c. 10 * acc + digit_value c) a ds"
  by (induction ds arbitrary: a) (auto simp: isdigit_def digit_value_def)

lemma digits_value_nonneg: "list_all isdigit ds \<Longrightarrow> 0 \<le> digits_value ds"
  unfolding digits_value_def by (rule digits_value_nonneg_aux) simp_all

lemma toInt_literal:
  assumes "is_int_literal s"
  shows "toInt s = clamp_long (literal_value s)"
proof -
  let ?ds = "literal_digits s"
  from assms have ne: "?ds \<noteq> []" and dg: "list_all isdigit ?ds"
    by (simp_all add: is_int_literal_def)
  have nn: "0 \<le> digits_value ?ds" using dg by (rule digits_value_nonneg)
  from ne have sne: "s \<noteq> []" by (auto simp: literal_digits_def split: if_splits)
  consider (minus) "hd s = CHR ''-''" | (plus) "hd s = CHR ''+''"
    | (none) "hd s \<noteq> CHR ''-''" "hd s \<noteq> CHR ''+''" by blast
  then show ?thesis
  proof cases
    case minus
    with sne have s: "s = CHR ''-'' # ?ds" by (cases s) (simp_all add: literal_digits_def)
    have "toInt (CHR ''-'' # ?ds) = max LONG_MIN (- digits_value ?ds)"
      using ne dg by (rule toInt_digits(3))
    moreover have "literal_value s = - digits_value ?ds"
      using minus sne by (simp add: literal_value_def)
    ultimately show ?thesis using nn s
      by (simp add: clamp_long_def LONG_MAX_def LONG_MIN_def)
  next
    case plus
    with sne have s: "s = CHR ''+'' # ?ds" by (cases s) (simp_all add: literal_digits_def)
    have "toInt (CHR ''+'' # ?ds) = min LONG_MAX (digits_value ?ds)"
      using ne dg by (rule toInt_digits(2))
    moreover have "literal_value s = digits_value ?ds"
      using plus sne by (simp add: literal_value_def)
    ultimately show ?thesis using nn s
      by (simp add: clamp_long_def LONG_MAX_def LONG_MIN_def)
  next
    case none
    then have s: "?ds = s" by (simp add: literal_digits_def)
    have "toInt ?ds = min LONG_MAX (digits_value ?ds)"
      using ne dg by (rule toInt_digits(1))
    moreover have "literal_value s = digits_value ?ds"
      using none by (simp add: literal_value_def)
    ultimately show ?thesis using nn s
      by (simp add: clamp_long_def LONG_MAX_def LONG_MIN_def)
  qed
qed

lemma in_range_clamp: "in_range f (clamp_long n) = in_range f n"
  by (cases f) (auto simp: clamp_long_def LONG_MAX_def LONG_MIN_def)

lemma in_range_clamp_id: "in_range f n \<Longrightarrow> clamp_long n = n"
  by (cases f) (auto simp: clamp_long_def LONG_MAX_def LONG_MIN_def)

lemma show_int_literal: "is_int_literal (show_int n) \<and> literal_value (show_int n) = n"
proof (cases "n < 0")
  case True
  then show ?thesis
    by (simp add: show_int_def is_int_literal_def literal_value_def literal_digits_def
        show_nat_nonempty show_nat_digits digits_value_show_nat)
next
  case False
  obtain d ds where sn: "show_nat (nat n) = d # ds" using show_nat_nonempty [of "nat n"]
    by (cases "show_nat (nat n)") auto
  have "list_all isdigit (show_nat (nat n))" by (rule show_nat_digits)
  with sn have "isdigit d" by simp
  then have "d \<noteq> CHR ''-''" "d \<noteq> CHR ''+''" using isdigit_not_sign by auto
  then have ld: "literal_digits (show_nat (nat n)) = show_nat (nat n)"
    by (simp add: literal_digits_def sn)
  have hd: "hd (show_nat (nat n)) \<noteq> CHR ''-''" using \<open>d \<noteq> CHR ''-''\<close> by (simp add: sn)
  from False ld hd show ?thesis
    by (simp add: show_int_def is_int_literal_def literal_value_def
        show_nat_nonempty show_nat_digits digits_value_show_nat)
qed

section \<open>The command parser's acceptance condition\<close>

text \<open>
  Claim C2. A message made of the prefix of field \<open>f\<close> followed by an integer literal
  denoting \<open>n\<close> writes \<open>n\<close> to that field and sets \<open>lastUpdate\<close> to the clock reading
  when \<open>n\<close> lies in the field's range (CO2 1..9999, PM2.5 0..1999, O3 0..1999, temperature
  -50..99, humidity 0..100, TVOC 0..1999, bounds inclusive), and leaves the store as it was
  otherwise. This holds for every spelling of the literal (sign, leading zeros), and in
  particular for the decimal rendering of every integer \<open>n\<close>, however large.
\<close>

theorem C2_acceptance:
  "(is_int_literal lit \<longrightarrow>
      parseArduinoData (prefix_of f @ lit) now sd =
        (if in_range f (literal_value lit) then accept f (literal_value lit) now sd else sd)) \<and>
   parseArduinoData (prefix_of f @ show_int n) now sd =
     (if in_range f n then accept f n now sd else sd)"
proof -
  have gen: "parseArduinoData (prefix_of f @ l) now sd =
        (if in_range f (literal_value l) then accept f (literal_value l) now sd else sd)"
    if "is_int_literal l" for l
    using that by (simp add: parse_prefixed toInt_literal in_range_clamp in_range_clamp_id)
  from gen [of "show_int n"] show_int_literal [of n] gen show ?thesis by simp
qed

theorem C2_acceptance_witness:
  "is_int_literal ''+0523'' \<and>
   parseArduinoData ''co2V.val=+0523'' 7 sensorData_init = sensorData_init\<lparr>co2 := 523, lastUpdate := 7\<rparr> \<and>
   parseArduinoData ''humV.val=101'' 7 sensorData_init = sensorData_init \<and>
   parseArduinoData ''tempV.val=-50'' 7 sensorData_init = sensorData_init\<lparr>temp := - 50, lastUpdate := 7\<rparr>"
proof -
  have l: "is_int_literal ''+0523''"
    by (simp add: is_int_literal_def literal_digits_def isdigit_def)
  have v: "literal_value ''+0523'' = 523"
    by (simp add: literal_value_def literal_digits_def digits_value_def digit_value_def)
  have s1: "show_int 101 = ''101''" by code_simp
  have s2: "show_int (- 50) = ''-50''" by code_simp
  show ?thesis
    using l v C2_acceptance [of "''+0523''" CO2 7 sensorData_init 0]
      C2_acceptance [of "''0''" HUM 7 sensorData_init 101]
      C2_acceptance [of "''0''" TEMP 7 sensorData_init "- 50"]
    by (simp add: s1 s2)
qed

lemma startsWith_split: "startsWith m p \<Longrightarrow> m = p @ substring m (length p)"
  by (auto simp: startsWith_def substring_def split: if_splits)
    (metis append_take_drop_id append_Nil2 drop_all order_refl)

lemma parse_no_prefix:
  "\<forall>f. \<not> startsWith m (prefix_of f) \<Longrightarrow> parseArduinoData m now sd = sd"
proof -
  assume a: "\<forall>f. \<not> startsWith m (prefix_of f)"
  from a [rule_format, of CO2] a [rule_format, of PM25] a [rule_format, of O3]
    a [rule_format, of TEMP] a [rule_format, of HUM] a [rule_format, of TVOC]
  show ?thesis by (simp add: parseArduinoData_def)
qed

lemma parse_matched:
  assumes "startsWith m (prefix_of f)"
  shows "parseArduinoData m now sd =
     (if in_range f (toInt (substring m (length (prefix_of f))))
      then accept f (toInt (substring m (length (prefix_of f)))) now sd else sd)"
proof -
  from assms have "m = prefix_of f @ substring m (length (prefix_of f))"
    by (rule startsWith_split)
  then have "parseArduinoData m now sd =
      parseArduinoData (prefix_of f @ substring m (length (prefix_of f))) now sd"
    by simp
  then show ?thesis by (simp only: parse_prefixed)
qed

lemma field_value_accept:
  "field_value g (accept f n now sd) = (if g = f then n else field_value g sd)"
  by (cases f; cases g) simp_all

lemma lastUpdate_accept: "lastUpdate (accept f n now sd) = now"
  by (cases f) simp_all

lemma parse_cases:
  "parseArduinoData m now sd = sd \<or>
   (\<exists>f. startsWith m (prefix_of f) \<and> in_range f (toInt (substring m (length (prefix_of f)))) \<and>
      parseArduinoData m now sd = accept f (toInt (substring m (length (prefix_of f)))) now sd)"
proof (cases "\<exists>f. startsWith m (prefix_of f)")
  case False
  then show ?thesis by (simp add: parse_no_prefix)
next
  case True
  then obtain f where f: "startsWith m (prefix_of f)" ..
  show ?thesis using parse_matched [OF f, of now sd] f by auto
qed



lemma parse_valid:
  "valid_message f m \<Longrightarrow> parseArduinoData m now sd = accept f (payload f m) now sd"
  using parse_matched [of m f now sd] by (simp add: valid_message_def payload_def)

lemma parse_invalid:
  "startsWith m (prefix_of f) \<Longrightarrow> \<not> in_range f (payload f m) \<Longrightarrow> parseArduinoData m now sd = sd"
  using parse_matched [of m f now sd] by (simp add: payload_def)

lemma parse_unchanged_or_valid:
  "parseArduinoData m now sd = sd \<or>
   (\<exists>f. valid_message f m \<and> parseArduinoData m now sd = accept f (payload f m) now sd)"
  using parse_cases [of m now sd] by (auto simp: valid_message_def payload_def)

lemma process_messages_snoc:
  "process_messages (msgs @ [m]) sd = parseArduinoData (fst m) (snd m) (process_messages msgs sd)"
  by (simp add: process_messages_def)

lemma accepted_in_snoc:
  "accepted_in f v (msgs @ [m]) =
     (accepted_in f v msgs \<or> (valid_message f (fst m) \<and> payload f (fst m) = v))"
  by (auto simp: accepted_in_def)

lemma range_invariant:
  "field_value f (process_messages msgs sensorData_init) = 0 \<or>
   (in_range f (field_value f (process_messages msgs sensorData_init)) \<and>
    accepted_in f (field_value f (process_messages msgs sensorData_init)) msgs)"
proof (induction msgs rule: rev_induct)
  case Nil
  show ?case by (cases f) (simp_all add: process_messages_def sensorData_init_def)
next
  case (snoc m msgs)
  let ?sd = "process_messages msgs sensorData_init"
  from parse_unchanged_or_valid [of "fst m" "snd m" ?sd]
  show ?case
  proof
    assume "parseArduinoData (fst m) (snd m) ?sd = ?sd"
    with snoc show ?thesis by (auto simp: process_messages_snoc accepted_in_snoc)
  next
    assume "\<exists>g. valid_message g (fst m) \<and>
      parseArduinoData (fst m) (snd m) ?sd = accept g (payload g (fst m)) (snd m) ?sd"
    then obtain g where g: "valid_message g (fst m)"
      and p: "parseArduinoData (fst m) (snd m) ?sd = accept g (payload g (fst m)) (snd m) ?sd"
      by blast
    show ?thesis
    proof (cases "f = g")
      case True
      with g p show ?thesis
        by (simp add: process_messages_snoc accepted_in_snoc field_value_accept valid_message_def)
    next
      case False
      with snoc p show ?thesis
        by (auto simp: process_messages_snoc accepted_in_snoc field_value_accept)
    qed
  qed
qed

section \<open>The store's range invariant\<close>

text \<open>
  Claim C1. Starting from the zeroed store, after any sequence of complete messages each
  measurement field is either still 0 or holds a value inside its declared range that a
  valid message of the sequence carried for that field. Every prefix of a sequence is a
  sequence, so this holds after each message. Within one message the parser makes at most
  one write, and only a value found in range is written: from any store, the result is the
  store itself or the store with one in-range value accepted.
\<close>

theorem C1_range_invariant:
  "(field_value f (process_messages msgs sensorData_init) = 0 \<or>
    (in_range f (field_value f (process_messages msgs sensorData_init)) \<and>
     accepted_in f (field_value f (process_messages msgs sensorData_init)) msgs)) \<and>
   (parseArduinoData m now sd = sd \<or>
    (\<exists>g. in_range g (payload g m) \<and> parseArduinoData m now sd = accept g (payload g m) now sd))"
  using range_invariant [of f msgs] parse_unchanged_or_valid [of m now sd]
  by (auto simp: valid_message_def)

section \<open>Rejected messages\<close>

text \<open>
  Claim C6. A message that starts with none of the six prefixes, and a message with a
  recognized prefix whose value is outside the field's range, leave the whole store
  (all fields and \<open>lastUpdate\<close>) as it was; so do \<open>foo.val=1\<close> and \<open>humV.val=150\<close>. The
  parser returns nothing but the store: no error reaches a caller.
\<close>

theorem C6_silent_rejection:
  "((\<forall>f. \<not> startsWith m (prefix_of f)) \<longrightarrow> parseArduinoData m now sd = sd) \<and>
   (startsWith m (prefix_of f) \<and> \<not> in_range f (payload f m) \<longrightarrow>
      parseArduinoData m now sd = sd) \<and>
   parseArduinoData ''foo.val=1'' now sd = sd \<and>
   parseArduinoData ''humV.val=150'' now sd = sd"
proof -
  have "parseArduinoData ''foo.val=1'' now sd = sd"
    by (simp add: parseArduinoData_def startsWith_def)
  moreover have "toInt ''150'' = 150"
    by (simp add: toInt_def isspace_def isdigit_def digits_value_def digit_value_def
        LONG_MAX_def Let_def)
  then have "parseArduinoData ''humV.val=150'' now sd = sd"
    using parse_prefixed [of HUM "''150''" now sd] by simp
  ultimately show ?thesis
    using parse_no_prefix [of m now sd] parse_invalid [of m f now sd] by blast
qed

theorem C6_silent_rejection_witness:
  "(\<forall>f. \<not> startsWith ''bar=7'' (prefix_of f)) \<and>
   parseArduinoData ''bar=7'' 9 sensorData_init = sensorData_init \<and>
   startsWith ''co2V.val=0'' (prefix_of CO2) \<and> \<not> in_range CO2 (payload CO2 ''co2V.val=0'') \<and>
   parseArduinoData ''co2V.val=0'' 9 sensorData_init = sensorData_init"
proof -
  have a: "\<forall>f. \<not> startsWith ''bar=7'' (prefix_of f)"
  proof
    fix f show "\<not> startsWith ''bar=7'' (prefix_of f)"
      by (cases f) (simp_all add: startsWith_def)
  qed
  have b: "startsWith ''co2V.val=0'' (prefix_of CO2)" by (simp add: startsWith_def)
  have "toInt ''0'' = 0"
    by (simp add: toInt_def isspace_def isdigit_def digits_value_def digit_value_def
        LONG_MAX_def Let_def)
  then have c: "\<not> in_range CO2 (payload CO2 ''co2V.val=0'')"
    by (simp add: payload_def substring_def)
  from a b c C6_silent_rejection [of "''bar=7''" 9 sensorData_init CO2]
    C6_silent_rejection [of "''co2V.val=0''" 9 sensorData_init CO2]
  show ?thesis by blast
qed

section \<open>Payloads that are not a number\<close>








lemma field_value_lastUpdate: "field_value f (sd\<lparr>lastUpdate := t\<rparr>) = field_value f sd"
  by (cases f) simp_all

lemma accept_twice: "accept f n t2 (accept f n t1 sd) = (accept f n t1 sd)\<lparr>lastUpdate := t2\<rparr>"
  by (cases f) simp_all

lemma valid_co2_523: "valid_message CO2 ''co2V.val=523'' \<and> payload CO2 ''co2V.val=523'' = 523"
proof -
  have "toInt ''523'' = 523"
    by (simp add: toInt_def isspace_def isdigit_def digits_value_def digit_value_def
        LONG_MAX_def Let_def)
  then show ?thesis
    by (simp add: valid_message_def payload_def startsWith_def substring_def)
qed

section \<open>The same message twice\<close>

text \<open>
  Claim C9 says that \<open>lastUpdate\<close> advances on each of two acceptances of the same valid
  message. The parser stores the reading of \<^verbatim>\<open>millis()\<close>, which has a resolution of one
  millisecond, and the reader hands over every message already waiting in one loop: when
  both acceptances fall into the same millisecond, here 5000, the second one leaves
  \<open>lastUpdate\<close> where the first put it.
\<close>

theorem C9_counterexample:
  "valid_message CO2 ''co2V.val=523'' \<and>
   co2 (parseArduinoData ''co2V.val=523'' 5000 sensorData_init) = 523 \<and>
   co2 (parseArduinoData ''co2V.val=523'' 5000
          (parseArduinoData ''co2V.val=523'' 5000 sensorData_init)) = 523 \<and>
   lastUpdate (parseArduinoData ''co2V.val=523'' 5000 sensorData_init) = 5000 \<and>
   \<not> lastUpdate (parseArduinoData ''co2V.val=523'' 5000 sensorData_init)
       < lastUpdate (parseArduinoData ''co2V.val=523'' 5000
           (parseArduinoData ''co2V.val=523'' 5000 sensorData_init))"
proof -
  have p: "parseArduinoData ''co2V.val=523'' t sd = accept CO2 523 t sd" for t sd
    using valid_co2_523 parse_valid [of CO2 "''co2V.val=523''" t sd] by simp
  show ?thesis using valid_co2_523 by (simp add: p)
qed

text \<open>
  Claim C9, amended. Processing the same valid message twice in succession leaves the
  targeted field at the value the first processing stored, and changes nothing but
  \<open>lastUpdate\<close>; each acceptance sets \<open>lastUpdate\<close> to the clock reading at that moment, so
  \<open>lastUpdate\<close> advances between the two exactly when the clock reading has advanced.
\<close>

theorem C9_repeated_acceptance:
  "valid_message f m \<Longrightarrow>
     field_value f (parseArduinoData m t1 sd) = payload f m \<and>
     field_value f (parseArduinoData m t2 (parseArduinoData m t1 sd)) =
       field_value f (parseArduinoData m t1 sd) \<and>
     parseArduinoData m t2 (parseArduinoData m t1 sd) =
       (parseArduinoData m t1 sd)\<lparr>lastUpdate := t2\<rparr> \<and>
     lastUpdate (parseArduinoData m t1 sd) = t1 \<and>
     lastUpdate (parseArduinoData m t2 (parseArduinoData m t1 sd)) = t2 \<and>
     (lastUpdate (parseArduinoData m t1 sd)
        < lastUpdate (parseArduinoData m t2 (parseArduinoData m t1 sd))) = (t1 < t2)"
proof -
  assume v: "valid_message f m"
  have p: "parseArduinoData m t s = accept f (payload f m) t s" for t s
    using v by (rule parse_valid)
  show ?thesis
    by (simp add: p accept_twice field_value_accept lastUpdate_accept field_value_lastUpdate)
qed

theorem C9_repeated_acceptance_witness:
  "valid_message TEMP ''tempV.val=-7'' \<and>
   temp (parseArduinoData ''tempV.val=-7'' 10 sensorData_init) = - 7 \<and>
   parseArduinoData ''tempV.val=-7'' 25 (parseArduinoData ''tempV.val=-7'' 10 sensorData_init) =
     sensorData_init\<lparr>temp := - 7, lastUpdate := 25\<rparr>"
proof -
  have "toInt ''-7'' = - 7"
    by (simp add: toInt_def isspace_def isdigit_def digits_value_def digit_value_def
        LONG_MIN_def Let_def)
  then have v: "valid_message TEMP ''tempV.val=-7''" and p: "payload TEMP ''tempV.val=-7'' = - 7"
    by (simp_all add: valid_message_def payload_def startsWith_def substring_def)
  have "parseArduinoData ''tempV.val=-7'' 10 sensorData_init =
      sensorData_init\<lparr>temp := - 7, lastUpdate := 10\<rparr>"
    using v p parse_valid [of TEMP "''tempV.val=-7''" 10 sensorData_init] by simp
  with v p C9_repeated_acceptance [OF v, of 10 sensorData_init 25]
  show ?thesis by simp
qed

section \<open>One field per message\<close>

text \<open>
  Claim C10. Processing one message changes at most one of the six measurement fields:
  some field \<open>f\<close> exists such that every other field keeps its value. When the message is
  valid for \<open>f\<close>, the result is the store with the value written to \<open>f\<close> and \<open>lastUpdate\<close>
  set to the clock reading, and the other five fields are unchanged.
\<close>

theorem C10_one_field:
  "(\<exists>f. \<forall>g. g \<noteq> f \<longrightarrow> field_value g (parseArduinoData m now sd) = field_value g sd) \<and>
   (valid_message f m \<longrightarrow>
      parseArduinoData m now sd = accept f (payload f m) now sd \<and>
      (\<forall>g. g \<noteq> f \<longrightarrow> field_value g (parseArduinoData m now sd) = field_value g sd))"
proof -
  have one: "\<exists>f. \<forall>g. g \<noteq> f \<longrightarrow> field_value g (parseArduinoData m now sd) = field_value g sd"
    using parse_unchanged_or_valid [of m now sd]
  proof
    assume "parseArduinoData m now sd = sd"
    then show ?thesis by simp
  next
    assume "\<exists>f. valid_message f m \<and>
      parseArduinoData m now sd = accept f (payload f m) now sd"
    then obtain f where "parseArduinoData m now sd = accept f (payload f m) now sd" by blast
    then have "\<forall>g. g \<noteq> f \<longrightarrow> field_value g (parseArduinoData m now sd) = field_value g sd"
      by (simp add: field_value_accept)
    then show ?thesis ..
  qed
  have acc: "parseArduinoData m now sd = accept f (payload f m) now sd \<and>
      (\<forall>g. g \<noteq> f \<longrightarrow> field_value g (parseArduinoData m now sd) = field_value g sd)"
    if "valid_message f m"
    using that parse_valid [of f m now sd] by (simp add: field_value_accept)
  from one acc show ?thesis by blast
qed

theorem C10_one_field_witness:
  "valid_message CO2 ''co2V.val=523'' \<and>
   parseArduinoData ''co2V.val=523'' 8 sensorData_init =
     sensorData_init\<lparr>co2 := 523, lastUpdate := 8\<rparr> \<and>
   CO2 \<noteq> HUM \<and>
   field_value HUM (parseArduinoData ''co2V.val=523'' 8 sensorData_init) =
     field_value HUM sensorData_init"
  using valid_co2_523 C10_one_field [of "''co2V.val=523''" 8 sensorData_init CO2]
  by simp

lemma readByte_length: "length (serialBuffer (readByte inp g)) \<le> 100"
  by (simp add: readByte_def Let_def)

lemma readArduinoData_snoc: "readArduinoData (input @ [x]) g = readByte x (readArduinoData input g)"
  by (simp add: readArduinoData_def)

lemma readArduinoData_Cons: "readArduinoData (x # input) g = readArduinoData input (readByte x g)"
  by (simp add: readArduinoData_def)

lemma readArduinoData_Nil: "readArduinoData [] g = g"
  by (simp add: readArduinoData_def)

lemma readArduinoData_length:
  "length (serialBuffer g) \<le> 100 \<Longrightarrow> length (serialBuffer (readArduinoData input g)) \<le> 100"
  by (cases input rule: rev_cases) (simp_all add: readArduinoData_Nil readArduinoData_snoc readByte_length)

lemma printable_not_delimiter: "printable b \<Longrightarrow> b \<noteq> 0xFF"
  by (auto simp: printable_def)

lemma readByte_printable:
  "printable b \<Longrightarrow> length (serialBuffer g) < 100 \<Longrightarrow>
     readByte (b, t) g = g\<lparr>ffCount := 0, serialBuffer := serialBuffer g @ [char_of (unat b)]\<rparr>"
  by (frule printable_not_delimiter) (simp add: readByte_def Let_def printable_def)

lemma readByte_overflow:
  "printable b \<Longrightarrow> length (serialBuffer g) \<ge> 100 \<Longrightarrow>
     readByte (b, t) g = g\<lparr>serialBuffer := [], ffCount := 0\<rparr>"
  by (frule printable_not_delimiter) (simp add: readByte_def Let_def printable_def)

lemma readByte_discard:
  "b \<noteq> 0xFF \<Longrightarrow> \<not> printable b \<Longrightarrow> length (serialBuffer g) \<le> 100 \<Longrightarrow>
     readByte (b, t) g = g\<lparr>ffCount := 0\<rparr>"
  by (auto simp: readByte_def Let_def printable_def)

lemma readByte_delimiter_count:
  "ffCount g + 1 < 3 \<Longrightarrow> length (serialBuffer g) \<le> 100 \<Longrightarrow>
     readByte (0xFF, t) g = g\<lparr>ffCount := ffCount g + 1\<rparr>"
  by (simp add: readByte_def Let_def)

lemma readByte_delimiter_emit:
  "ffCount g + 1 \<ge> 3 \<Longrightarrow> serialBuffer g \<noteq> [] \<Longrightarrow>
     readByte (0xFF, t) g =
       g\<lparr>sensorData := parseArduinoData (serialBuffer g) t (sensorData g),
         received := received g @ [serialBuffer g], serialBuffer := [], ffCount := 0\<rparr>"
  by (simp add: readByte_def Let_def)

lemma readByte_delimiter_empty:
  "ffCount g + 1 \<ge> 3 \<Longrightarrow> serialBuffer g = [] \<Longrightarrow>
     readByte (0xFF, t) g = g\<lparr>ffCount := 0\<rparr>"
  by (simp add: readByte_def Let_def)

lemma readByte_other:
  "b \<noteq> 0xFF \<Longrightarrow>
     ffCount (readByte (b, t) g) = 0 \<and> received (readByte (b, t) g) = received g \<and>
     sensorData (readByte (b, t) g) = sensorData g"
  by (simp add: readByte_def Let_def)

lemma readByte_ffCount: "0 \<le> ffCount g \<Longrightarrow> ffCount g \<le> 2 \<Longrightarrow>
   0 \<le> ffCount (readByte inp g) \<and> ffCount (readByte inp g) \<le> 2"
  by (simp add: readByte_def Let_def)

lemma printable_run:
  "list_all printable (map fst input) \<Longrightarrow> length (serialBuffer g) \<le> 100 \<Longrightarrow>
     received (readArduinoData input g) = received g \<and>
     sensorData (readArduinoData input g) = sensorData g \<and>
     length (serialBuffer (readArduinoData input g)) = (length (serialBuffer g) + length input) mod 101"
proof (induction input arbitrary: g)
  case Nil
  then show ?case by (simp add: readArduinoData_Nil)
next
  case (Cons x input)
  obtain b t where x: "x = (b, t)" by (cases x)
  from Cons.prems x have pb: "printable b" and rest: "list_all printable (map fst input)" by simp_all
  show ?case
  proof (cases "length (serialBuffer g) < 100")
    case True
    with pb have step: "readByte (b, t) g = g\<lparr>ffCount := 0, serialBuffer := serialBuffer g @ [char_of (unat b)]\<rparr>"
      by (rule readByte_printable)
    from True have "length (serialBuffer (readByte (b, t) g)) \<le> 100" by (simp add: step)
    from Cons.IH [OF rest this] True show ?thesis
      by (simp add: readArduinoData_Cons x step)
  next
    case False
    with Cons.prems have full: "length (serialBuffer g) = 100" by simp
    with pb have step: "readByte (b, t) g = g\<lparr>serialBuffer := [], ffCount := 0\<rparr>"
      by (simp add: readByte_overflow)
    have "length (serialBuffer (readByte (b, t) g)) \<le> 100" by (simp add: step)
    from Cons.IH [OF rest this] full show ?thesis
      by (simp add: readArduinoData_Cons x step)
  qed
qed


lemma byte_of_char: "unat (of_nat (of_char c) :: byte) = of_char c"
proof -
  have "unat (of_nat (of_char c) :: byte) = of_char c mod 256"
    by (simp add: unat_of_nat)
  then show ?thesis by simp
qed

lemma readArduinoData_append:
  "readArduinoData (xs @ ys) g = readArduinoData ys (readArduinoData xs g)"
  by (simp add: readArduinoData_def)

lemma read_text:
  "list_all printable (bytes_of s) \<Longrightarrow> map fst input = bytes_of s \<Longrightarrow>
   length (serialBuffer g) + length s \<le> 100 \<Longrightarrow>
     readArduinoData input g =
       g\<lparr>ffCount := (if s = [] then ffCount g else 0), serialBuffer := serialBuffer g @ s\<rparr>"
proof (induction s arbitrary: input g)
  case Nil
  then show ?case by (simp add: bytes_of_def readArduinoData_Nil)
next
  case (Cons c s)
  from Cons.prems(2) obtain t input' where inp: "input = (of_nat (of_char c), t) # input'"
    and rest: "map fst input' = bytes_of s"
    by (cases input) (auto simp: bytes_of_def)
  from Cons.prems(1) have pc: "printable (of_nat (of_char c))" and ps: "list_all printable (bytes_of s)"
    by (simp_all add: bytes_of_def)
  from Cons.prems(3) have len: "length (serialBuffer g) < 100" by simp
  let ?g = "g\<lparr>ffCount := 0, serialBuffer := serialBuffer g @ [c]\<rparr>"
  have step: "readByte (of_nat (of_char c), t) g = ?g"
    using readByte_printable [OF pc len, of t] by (simp add: byte_of_char)
  from Cons.prems(3) have "length (serialBuffer ?g) + length s \<le> 100" by simp
  from Cons.IH [OF ps rest this] show ?case
    by (simp add: inp readArduinoData_Cons step)
qed

lemma read_terminator:
  "serialBuffer g \<noteq> [] \<Longrightarrow> length (serialBuffer g) \<le> 100 \<Longrightarrow> ffCount g = 0 \<Longrightarrow>
     readArduinoData [(0xFF, t1), (0xFF, t2), (0xFF, t3)] g =
       g\<lparr>sensorData := parseArduinoData (serialBuffer g) t3 (sensorData g),
         received := received g @ [serialBuffer g], serialBuffer := [], ffCount := 0\<rparr>"
  by (simp add: readArduinoData_Cons readArduinoData_Nil readByte_delimiter_count
      readByte_delimiter_emit)

lemma at_times_shift_aux:
  "map (\<lambda>ib. (snd ib, clk (fst ib))) (enumerate (n + k) bs) =
   map (\<lambda>ib. (snd ib, clk (n + fst ib))) (enumerate k bs)"
proof (induction bs arbitrary: k)
  case Nil
  show ?case by simp
next
  case (Cons b bs)
  from Cons [of "Suc k"] show ?case by simp
qed

lemma at_times_shift:
  "map (\<lambda>ib. (snd ib, clk (fst ib))) (enumerate n bs) =
   map (\<lambda>ib. (snd ib, clk (n + fst ib))) (enumerate 0 bs)"
  using at_times_shift_aux [of clk n 0 bs] by simp

lemma at_times_append:
  "at_times clk (bs @ cs) = at_times clk bs @ at_times (\<lambda>i. clk (length bs + i)) cs"
  by (simp add: at_times_def enumerate_append_eq at_times_shift [of clk "length bs"])

lemma fst_at_times: "map fst (at_times clk bs) = bs"
  by (simp add: at_times_def enumerate_eq_zip comp_def map_snd_zip)

lemma at_times_Cons: "at_times clk (b # bs) = (b, clk 0) # at_times (\<lambda>i. clk (Suc i)) bs"
  using at_times_append [of clk "[b]" bs] by (simp add: at_times_def)

lemma read_frame:
  assumes "s \<noteq> []" "length (serialBuffer g) + length s \<le> 100" "list_all printable (bytes_of s)"
  shows "readArduinoData (at_times clk (bytes_of s @ [0xFF, 0xFF, 0xFF])) g =
     g\<lparr>sensorData := parseArduinoData (serialBuffer g @ s) (clk (length s + 2)) (sensorData g),
       received := received g @ [serialBuffer g @ s], serialBuffer := [], ffCount := 0\<rparr>"
proof -
  let ?g = "g\<lparr>ffCount := 0, serialBuffer := serialBuffer g @ s\<rparr>"
  have "readArduinoData (at_times clk (bytes_of s)) g = ?g"
    using read_text [OF assms(3) fst_at_times assms(2), of clk] assms(1) by simp
  moreover have "at_times (\<lambda>i. clk (length s + i)) [0xFF, 0xFF, 0xFF] =
      [(0xFF, clk (length s)), (0xFF, clk (length s + 1)), (0xFF, clk (length s + 2))]"
    by (simp add: at_times_def eval_nat_numeral)
  moreover have "length (bytes_of s) = length s" by (simp add: bytes_of_def)
  ultimately show ?thesis
    using assms read_terminator [of ?g "clk (length s)" "clk (length s + 1)" "clk (length s + 2)"]
    by (simp add: at_times_append readArduinoData_append)
qed

lemma toInt_523: "toInt ''523'' = 523"
  by (simp add: toInt_def isspace_def isdigit_def digits_value_def digit_value_def
      LONG_MAX_def Let_def)

lemma toInt_21: "toInt ''21'' = 21"
  by (simp add: toInt_def isspace_def isdigit_def digits_value_def digit_value_def
      LONG_MAX_def Let_def)

lemma printable_text_co2: "list_all printable (bytes_of ''co2V.val=523'')"
  by (simp add: bytes_of_def printable_def)

lemma stray_delimiter_example:
  "readArduinoData
     (at_times clk (bytes_of ''temp'' @ [0xFF] @ bytes_of ''V.val=21'' @ [0xFF, 0xFF, 0xFF]))
     globals_init =
   globals_init\<lparr>sensorData := sensorData_init\<lparr>temp := 21, lastUpdate := clk 15\<rparr>,
     received := [''tempV.val=21'']\<rparr>"
proof -
  let ?g1 = "globals_init\<lparr>ffCount := 0, serialBuffer := ''temp''\<rparr>"
  let ?g2 = "?g1\<lparr>ffCount := 1\<rparr>"
  have p1: "list_all printable (bytes_of ''temp'')" by (simp add: bytes_of_def printable_def)
  have p2: "list_all printable (bytes_of ''V.val=21'')" by (simp add: bytes_of_def printable_def)
  have l1: "length (bytes_of ''temp'') = 4" by (simp add: bytes_of_def)
  have r1: "readArduinoData (at_times clk (bytes_of ''temp'')) globals_init = ?g1"
    using read_text [OF p1 fst_at_times, of globals_init clk] by (simp add: globals_init_def)
  have r2: "readByte (0xFF, clk 4) ?g1 = ?g2"
    using readByte_delimiter_count [of ?g1 "clk 4"] by simp
  have r3: "readArduinoData (at_times (\<lambda>i. clk (5 + i)) (bytes_of ''V.val=21'' @ [0xFF, 0xFF, 0xFF])) ?g2 =
      ?g2\<lparr>sensorData := parseArduinoData ''tempV.val=21'' (clk 15) (sensorData ?g2),
        received := received ?g2 @ [''tempV.val=21''], serialBuffer := [], ffCount := 0\<rparr>"
    using read_frame [OF _ _ p2, of ?g2 "\<lambda>i. clk (5 + i)"] by simp
  have r4: "parseArduinoData ''tempV.val=21'' (clk 15) sensorData_init =
      sensorData_init\<lparr>temp := 21, lastUpdate := clk 15\<rparr>"
    using parse_prefixed [of TEMP "''21''" "clk 15" sensorData_init] by (simp add: toInt_21)
  have "readArduinoData
     (at_times clk (bytes_of ''temp'' @ [0xFF] @ bytes_of ''V.val=21'' @ [0xFF, 0xFF, 0xFF]))
     globals_init =
     readArduinoData (at_times (\<lambda>i. clk (5 + i)) (bytes_of ''V.val=21'' @ [0xFF, 0xFF, 0xFF]))
       (readByte (0xFF, clk 4) (readArduinoData (at_times clk (bytes_of ''temp'')) globals_init))"
    by (simp only: at_times_append readArduinoData_append l1 append.simps at_times_Cons
        readArduinoData_Cons) (simp add: add.commute)
  then show ?thesis
    by (simp only: r1 r2 r3) (simp add: r4 globals_init_def)
qed


section \<open>The bound on the accumulation buffer\<close>

text \<open>
  Claim C3. After the reader has processed a byte, whatever the byte and whatever the state
  before, the buffer holds at most 100 characters; so it does after any input sequence.
  A printable byte arriving at a buffer of 100 characters would make 101: the buffer is
  cleared and the delimiter counter reset. A run of printable bytes with no terminator hands
  no message to the parser; of a run of 150, the first 100 fill the buffer, the 101st
  clears it, and nothing is emitted.
\<close>

theorem C3_buffer_bound:
  "length (serialBuffer (readByte inp g)) \<le> 100 \<and>
   length (serialBuffer (readArduinoData input globals_init)) \<le> 100 \<and>
   (printable b \<and> length (serialBuffer g) = 100 \<longrightarrow>
      readByte (b, t) g = g\<lparr>serialBuffer := [], ffCount := 0\<rparr>) \<and>
   (list_all printable (map fst run) \<longrightarrow>
      received (readArduinoData run globals_init) = [] \<and>
      length (serialBuffer (readArduinoData run globals_init)) = length run mod 101) \<and>
   (list_all printable (map fst run) \<and> length run = 150 \<longrightarrow>
      length (serialBuffer (readArduinoData (take 100 run) globals_init)) = 100 \<and>
      serialBuffer (readArduinoData (take 101 run) globals_init) = [] \<and>
      ffCount (readArduinoData (take 101 run) globals_init) = 0 \<and>
      received (readArduinoData (take 101 run) globals_init) = [] \<and>
      received (readArduinoData run globals_init) = [])"
proof -
  have init: "length (serialBuffer globals_init) \<le> 100" "received globals_init = []"
    "length (serialBuffer globals_init) = 0"
    by (simp_all add: globals_init_def)
  have a: "length (serialBuffer (readArduinoData input globals_init)) \<le> 100"
    using init(1) by (rule readArduinoData_length)
  have b: "readByte (b, t) g = g\<lparr>serialBuffer := [], ffCount := 0\<rparr>"
    if "printable b" "length (serialBuffer g) = 100"
    using that by (simp add: readByte_overflow)
  have c: "received (readArduinoData xs globals_init) = [] \<and>
      length (serialBuffer (readArduinoData xs globals_init)) = length xs mod 101"
    if "list_all printable (map fst xs)" for xs
    using printable_run [OF that init(1)] init by simp
  have d: "length (serialBuffer (readArduinoData (take 100 run) globals_init)) = 100 \<and>
      serialBuffer (readArduinoData (take 101 run) globals_init) = [] \<and>
      ffCount (readArduinoData (take 101 run) globals_init) = 0 \<and>
      received (readArduinoData (take 101 run) globals_init) = [] \<and>
      received (readArduinoData run globals_init) = []"
    if pr: "list_all printable (map fst run)" and len: "length run = 150"
  proof -
    have p100: "list_all printable (map fst (take 100 run))"
      using pr by (auto simp: list_all_iff dest: in_set_takeD)
    have p101: "list_all printable (map fst (take 101 run))"
      using pr by (auto simp: list_all_iff dest: in_set_takeD)
    have l100: "length (serialBuffer (readArduinoData (take 100 run) globals_init)) = 100"
      using c [OF p100] len by simp
    have "take 101 run = take 100 run @ [run ! 100]"
      using len by (simp add: take_Suc_conv_app_nth [of 100 run, simplified])
    then have step: "readArduinoData (take 101 run) globals_init =
        readByte (run ! 100) (readArduinoData (take 100 run) globals_init)"
      by (simp add: readArduinoData_snoc)
    have "printable (fst (run ! 100))" using pr len by (simp add: list_all_length)
    then have "readByte (run ! 100) (readArduinoData (take 100 run) globals_init) =
        (readArduinoData (take 100 run) globals_init)\<lparr>serialBuffer := [], ffCount := 0\<rparr>"
      using readByte_overflow [of "fst (run ! 100)" "readArduinoData (take 100 run) globals_init" "snd (run ! 100)"] l100 by (cases "run ! 100") simp
    with step c [OF p101] c [OF pr] l100 show ?thesis by simp
  qed
  from a b c [of run] d readByte_length [of inp g] show ?thesis by blast
qed


theorem C3_buffer_bound_witness:
  "printable 0x41 \<and>
   length (serialBuffer (globals_init\<lparr>serialBuffer := replicate 100 CHR ''A''\<rparr>)) = 100 \<and>
   readByte (0x41, 7) (globals_init\<lparr>serialBuffer := replicate 100 CHR ''A''\<rparr>) = globals_init \<and>
   list_all printable (map fst (replicate 150 (0x41 :: byte, 7 :: ulong))) \<and>
   length (replicate 150 (0x41 :: byte, 7 :: ulong)) = 150 \<and>
   length (serialBuffer (readArduinoData (replicate 150 (0x41, 7)) globals_init)) = 49 \<and>
   serialBuffer (readArduinoData (replicate 101 (0x41, 7)) globals_init) = [] \<and>
   received (readArduinoData (replicate 150 (0x41, 7)) globals_init) = []"
proof -
  have p: "printable 0x41" by (simp add: printable_def)
  have l: "list_all printable (map fst (replicate 150 (0x41 :: byte, 7 :: ulong)))"
    using p by (simp add: list_all_iff)
  have g: "globals_init\<lparr>serialBuffer := replicate 100 CHR ''A'', serialBuffer := [], ffCount := 0\<rparr> =
      globals_init"
    by (simp add: globals_init_def)
  from p l g
    C3_buffer_bound [of "(0x41, 7)" "globals_init\<lparr>serialBuffer := replicate 100 CHR ''A''\<rparr>"
      "[]" "0x41" 7 "replicate 150 (0x41, 7)"]
  show ?thesis by simp
qed

section \<open>Framing\<close>

text \<open>
  Claim C4. On a delimiter byte the counter goes up by one while the new count is below 3.
  When it reaches 3, a non-empty buffer is handed to the parser and cleared, an empty buffer
  hands over nothing, and the counter is 0 afterwards in both cases. Any other byte resets
  the counter to 0 and emits nothing, and the counter stays between 0 and 2 from byte to
  byte. So one stray delimiter inside a message does not end it: \<open>temp\<close>, one 0xFF,
  \<open>V.val=21\<close> and three 0xFF give the single message \<open>tempV.val=21\<close> and temperature 21.
\<close>

theorem C4_framing:
  "(length (serialBuffer g) \<le> 100 \<and> ffCount g + 1 < 3 \<longrightarrow>
      readByte (0xFF, t) g = g\<lparr>ffCount := ffCount g + 1\<rparr>) \<and>
   (ffCount g + 1 \<ge> 3 \<and> serialBuffer g \<noteq> [] \<longrightarrow>
      readByte (0xFF, t) g =
        g\<lparr>sensorData := parseArduinoData (serialBuffer g) t (sensorData g),
          received := received g @ [serialBuffer g], serialBuffer := [], ffCount := 0\<rparr>) \<and>
   (ffCount g + 1 \<ge> 3 \<and> serialBuffer g = [] \<longrightarrow> readByte (0xFF, t) g = g\<lparr>ffCount := 0\<rparr>) \<and>
   (b \<noteq> 0xFF \<longrightarrow>
      ffCount (readByte (b, t) g) = 0 \<and> received (readByte (b, t) g) = received g \<and>
      sensorData (readByte (b, t) g) = sensorData g) \<and>
   (0 \<le> ffCount g \<and> ffCount g \<le> 2 \<longrightarrow>
      0 \<le> ffCount (readByte (b, t) g) \<and> ffCount (readByte (b, t) g) \<le> 2) \<and>
   readArduinoData
     (at_times clk (bytes_of ''temp'' @ [0xFF] @ bytes_of ''V.val=21'' @ [0xFF, 0xFF, 0xFF]))
     globals_init =
   globals_init\<lparr>sensorData := sensorData_init\<lparr>temp := 21, lastUpdate := clk 15\<rparr>,
     received := [''tempV.val=21'']\<rparr>"
  using readByte_delimiter_count [of g t] readByte_delimiter_emit [of g t]
    readByte_delimiter_empty [of g t] readByte_other [of b t g] readByte_ffCount [of g "(b, t)"]
    stray_delimiter_example [of clk]
  by blast

theorem C4_framing_witness:
  "length (serialBuffer (globals_init\<lparr>serialBuffer := ''ab'', ffCount := 1\<rparr>)) \<le> 100 \<and>
   ffCount (globals_init\<lparr>serialBuffer := ''ab'', ffCount := 1\<rparr>) + 1 < 3 \<and>
   readByte (0xFF, 3) (globals_init\<lparr>serialBuffer := ''ab'', ffCount := 1\<rparr>) =
     globals_init\<lparr>serialBuffer := ''ab'', ffCount := 2\<rparr> \<and>
   ffCount (globals_init\<lparr>serialBuffer := ''ab'', ffCount := 2\<rparr>) + 1 \<ge> 3 \<and>
   serialBuffer (globals_init\<lparr>serialBuffer := ''ab'', ffCount := 2\<rparr>) \<noteq> [] \<and>
   readByte (0xFF, 3) (globals_init\<lparr>serialBuffer := ''ab'', ffCount := 2\<rparr>) =
     globals_init\<lparr>received := [''ab'']\<rparr> \<and>
   ffCount (globals_init\<lparr>ffCount := 2\<rparr>) + 1 \<ge> 3 \<and>
   serialBuffer (globals_init\<lparr>ffCount := 2\<rparr>) = [] \<and>
   readByte (0xFF, 3) (globals_init\<lparr>ffCount := 2\<rparr>) = globals_init \<and>
   (0x0A :: byte) \<noteq> 0xFF \<and>
   ffCount (readByte (0x0A, 3) (globals_init\<lparr>serialBuffer := ''ab'', ffCount := 2\<rparr>)) = 0 \<and>
   temp (sensorData (readArduinoData
     (at_times (\<lambda>i. 1000 + of_nat i)
        (bytes_of ''temp'' @ [0xFF] @ bytes_of ''V.val=21'' @ [0xFF, 0xFF, 0xFF]))
     globals_init)) = 21"
proof -
  have u: "parseArduinoData ''ab'' 3 sensorData_init = sensorData_init"
    by (simp add: parseArduinoData_def startsWith_def)
  from C4_framing [of "globals_init\<lparr>serialBuffer := ''ab'', ffCount := 1\<rparr>" 3 "0x0A" "\<lambda>i. 1000 + of_nat i"]
    C4_framing [of "globals_init\<lparr>serialBuffer := ''ab'', ffCount := 2\<rparr>" 3 "0x0A" "\<lambda>i. 1000 + of_nat i"]
    C4_framing [of "globals_init\<lparr>ffCount := 2\<rparr>" 3 "0x0A" "\<lambda>i. 1000 + of_nat i"]
  show ?thesis by (simp add: globals_init_def u)
qed

lemma handleData_doc_eq:
  "handleData_doc now sd =
     [(''co2'', co2 sd), (''pm25'', pm25 sd), (''o3'', o3 sd), (''temp'', temp sd),
      (''hum'', hum sd), (''tvoc'', tvoc sd), (''lastUpdate'', uint now)]"
  by (simp add: handleData_doc_def doc_assign_def Let_def)

lemma show_int_523: "show_int 523 = ''523''"
  by code_simp

lemma serialize_snapshot:
  \<open>serializeJson (handleData_doc now sd) =
     ''{"co2":'' @ show_int (co2 sd) @ '',"pm25":'' @ show_int (pm25 sd) @
     '',"o3":'' @ show_int (o3 sd) @ '',"temp":'' @ show_int (temp sd) @
     '',"hum":'' @ show_int (hum sd) @ '',"tvoc":'' @ show_int (tvoc sd) @
     '',"lastUpdate":'' @ show_int (uint now) @ ''}''\<close>
  by (simp add: handleData_doc_eq serializeJson_def json_member_def)

section \<open>The snapshot export\<close>

text \<open>
  Claim C8. The exported object has the keys co2, pm25, o3, temp, hum, tvoc and lastUpdate,
  in this order and no others; the first six carry the store's current values and
  lastUpdate carries the clock reading at export time, whatever the store's own
  \<open>lastUpdate\<close> is. The response always has status 200 and content type application/json,
  its text is the serialized object, and the globals are left as they were.
\<close>

theorem C8_snapshot_export:
  \<open>map fst (handleData_doc now (sensorData g)) =
     [''co2'', ''pm25'', ''o3'', ''temp'', ''hum'', ''tvoc'', ''lastUpdate''] \<and>
   map snd (handleData_doc now (sensorData g)) =
     [co2 (sensorData g), pm25 (sensorData g), o3 (sensorData g), temp (sensorData g),
      hum (sensorData g), tvoc (sensorData g), uint now] \<and>
   handleData_doc now (sd\<lparr>lastUpdate := u\<rparr>) = handleData_doc now sd \<and>
   code (fst (handleData now g)) = 200 \<and>
   contentType (fst (handleData now g)) = ''application/json'' \<and>
   content (fst (handleData now g)) = serializeJson (handleData_doc now (sensorData g)) \<and>
   content (fst (handleData now g)) =
     ''{"co2":'' @ show_int (co2 (sensorData g)) @ '',"pm25":'' @ show_int (pm25 (sensorData g)) @
     '',"o3":'' @ show_int (o3 (sensorData g)) @ '',"temp":'' @ show_int (temp (sensorData g)) @
     '',"hum":'' @ show_int (hum (sensorData g)) @ '',"tvoc":'' @ show_int (tvoc (sensorData g)) @
     '',"lastUpdate":'' @ show_int (uint now) @ ''}'' \<and>
   snd (handleData now g) = g\<close>
proof -
  have c: "content (fst (handleData now g)) = serializeJson (handleData_doc now (sensorData g))"
    by (simp add: handleData_def Let_def)
  show ?thesis
    unfolding c serialize_snapshot
    by (simp add: handleData_doc_eq) (simp add: handleData_def Let_def)
qed

section \<open>From the wire to the export\<close>

text \<open>
  Claim C5. With an empty buffer, the bytes of \<open>co2V.val=523\<close> and three 0xFF set the CO2
  field to 523 and \<open>lastUpdate\<close> to the clock reading at the third delimiter (the byte at
  index 14), and hand exactly that message to the parser; the JSON text of an export made
  afterwards begins with the member \<open>"co2":523\<close>, and so contains it.
\<close>

theorem C5_round_trip:
  \<open>serialBuffer g = [] \<Longrightarrow>
     sensorData (readArduinoData (at_times clk (bytes_of ''co2V.val=523'' @ [0xFF, 0xFF, 0xFF])) g) =
       (sensorData g)\<lparr>co2 := 523, lastUpdate := clk 14\<rparr> \<and>
     received (readArduinoData (at_times clk (bytes_of ''co2V.val=523'' @ [0xFF, 0xFF, 0xFF])) g) =
       received g @ [''co2V.val=523''] \<and>
     (\<exists>rest. content (fst (handleData now
        (readArduinoData (at_times clk (bytes_of ''co2V.val=523'' @ [0xFF, 0xFF, 0xFF])) g))) =
        ''{"co2":523,'' @ rest) \<and>
     (\<exists>before after. content (fst (handleData now
        (readArduinoData (at_times clk (bytes_of ''co2V.val=523'' @ [0xFF, 0xFF, 0xFF])) g))) =
        before @ ''"co2":523'' @ after)\<close>
proof -
  assume e: "serialBuffer g = []"
  let ?g = "readArduinoData (at_times clk (bytes_of ''co2V.val=523'' @ [0xFF, 0xFF, 0xFF])) g"
  have p: "parseArduinoData ''co2V.val=523'' (clk 14) (sensorData g) =
      (sensorData g)\<lparr>co2 := 523, lastUpdate := clk 14\<rparr>"
    using parse_prefixed [of CO2 "''523''" "clk 14" "sensorData g"] by (simp add: toInt_523)
  have r: "?g = g\<lparr>sensorData := (sensorData g)\<lparr>co2 := 523, lastUpdate := clk 14\<rparr>,
      received := received g @ [''co2V.val=523''], serialBuffer := [], ffCount := 0\<rparr>"
  proof -
    have n: "length ''co2V.val=523'' + 2 = 14" by simp
    show ?thesis
      using read_frame [OF _ _ printable_text_co2, of g clk] e p unfolding n by simp
  qed
  have c: \<open>content (fst (handleData now ?g)) =
      ''{"co2":523,'' @ (''"pm25":'' @ show_int (pm25 (sensorData g)) @
     '',"o3":'' @ show_int (o3 (sensorData g)) @ '',"temp":'' @ show_int (temp (sensorData g)) @
     '',"hum":'' @ show_int (hum (sensorData g)) @ '',"tvoc":'' @ show_int (tvoc (sensorData g)) @
     '',"lastUpdate":'' @ show_int (uint now) @ ''}'')\<close>
    by (simp add: r handleData_def Let_def serialize_snapshot show_int_523)
  have c2: \<open>content (fst (handleData now ?g)) =
      ''{'' @ ''"co2":523'' @ ('',"pm25":'' @ show_int (pm25 (sensorData g)) @
     '',"o3":'' @ show_int (o3 (sensorData g)) @ '',"temp":'' @ show_int (temp (sensorData g)) @
     '',"hum":'' @ show_int (hum (sensorData g)) @ '',"tvoc":'' @ show_int (tvoc (sensorData g)) @
     '',"lastUpdate":'' @ show_int (uint now) @ ''}'')\<close>
    by (simp add: c)
  have A: "sensorData ?g = (sensorData g)\<lparr>co2 := 523, lastUpdate := clk 14\<rparr>"
    by (simp add: r)
  have B: "received ?g = received g @ [''co2V.val=523'']"
    by (simp add: r)
  have C: \<open>\<exists>rest. content (fst (handleData now ?g)) = ''{"co2":523,'' @ rest\<close>
    using c by (rule exI)
  have D: \<open>\<exists>before after. content (fst (handleData now ?g)) = before @ ''"co2":523'' @ after\<close>
    using c2 by (intro exI)
  from A B C D show ?thesis by (intro conjI)
qed

theorem C5_round_trip_witness:
  \<open>serialBuffer globals_init = [] \<and>
   co2 (sensorData (readArduinoData
     (at_times (\<lambda>i. 2000 + of_nat i) (bytes_of ''co2V.val=523'' @ [0xFF, 0xFF, 0xFF]))
     globals_init)) = 523 \<and>
   lastUpdate (sensorData (readArduinoData
     (at_times (\<lambda>i. 2000 + of_nat i) (bytes_of ''co2V.val=523'' @ [0xFF, 0xFF, 0xFF]))
     globals_init)) = 2014\<close>
proof -
  have e: "serialBuffer globals_init = []" by (simp add: globals_init_def)
  from e C5_round_trip [OF e, of "\<lambda>i. 2000 + of_nat i" 0] show ?thesis by simp
qed

end
